theory Spec2Isabelle
  imports Main "HOL-Library.AList" "HOL-Library.Product_Lexorder"
begin

section \<open>The address book of module\_2.1.py\<close>

text \<open>
  A shallow embedding of the core of \<^verbatim>\<open>module_2.1.py\<close>: the field validators
  (\<^verbatim>\<open>Name\<close>, \<^verbatim>\<open>Phone\<close>, \<^verbatim>\<open>Birthday\<close>), \<^verbatim>\<open>Record\<close> and \<^verbatim>\<open>AddressBook\<close>.

  Conventions.
  \<^item> A Python \<^verbatim>\<open>str\<close> is a \<open>string\<close>; the character \<open>c\<close> stands for the code point
    \<open>of_char c\<close>, so the strings of the model are those over U+0000..U+00FF, and
    \<open>length\<close> counts code points as \<^verbatim>\<open>len\<close> does.
  \<^item> An exception is a value of type \<open>error\<close>, carrying the exception class and its
    message; a call that can raise returns \<open>error + 'a\<close>, with \<open>Inl\<close> for the raise.
  \<^item> A method that mutates its object returns the outcome together with the object as
    the call leaves it, so that what an exception leaves behind is part of the model.
\<close>

subsection \<open>Errors\<close>

datatype error =
    ValueError string
  | KeyError string
  | OverflowError string

subsection \<open>Fields\<close>

text \<open>
  \<^verbatim>\<open>class Field\<close>: an object with the single attribute \<^verbatim>\<open>value\<close>. None of the field
  classes defines \<^verbatim>\<open>__bool__\<close> or \<^verbatim>\<open>__len__\<close>, so every field object is truthy, and
  \<^verbatim>\<open>if record.birthday:\<close> tests for \<^verbatim>\<open>None\<close> only.
\<close>

datatype Field = Field_of (field_value: string)

definition Field_init :: "string \<Rightarrow> error + Field" where
  "Field_init v = Inr (Field_of v)"

text \<open>\<^verbatim>\<open>class Name(Field): pass\<close>\<close>

definition Name :: "string \<Rightarrow> error + Field" where
  "Name v = Field_init v"

text \<open>
  \<^verbatim>\<open>str.isdigit\<close>: true when the string is not empty and every character is a digit
  (Unicode property Numeric\_Type Digit or Decimal). Among the code points below 256 these
  are \<^verbatim>\<open>0\<close>..\<^verbatim>\<open>9\<close> (48..57) and the superscripts two, three and one (U+00B2, U+00B3,
  U+00B9).
\<close>

definition isdigit_char :: "char \<Rightarrow> bool" where
  "isdigit_char c =
     (let n = (of_char c :: nat)
      in (48 \<le> n \<and> n \<le> 57) \<or> n = 178 \<or> n = 179 \<or> n = 185)"

definition isdigit :: "string \<Rightarrow> bool" where
  "isdigit s = (s \<noteq> [] \<and> list_all isdigit_char s)"

text \<open>
  \<^verbatim>\<open>Phone.__init__\<close>:
  \<^verbatim>\<open>if not value.isdigit() or len(value) != 10: raise ValueError(...)\<close>
\<close>

definition Phone :: "string \<Rightarrow> error + Field" where
  "Phone v =
     (if \<not> isdigit v \<or> length v \<noteq> 10
      then Inl (ValueError ''Phone number must be 10 digits.'')
      else Field_init v)"

text \<open>The ten characters \<^verbatim>\<open>0\<close>..\<^verbatim>\<open>9\<close>, the spec's decimal digit characters.\<close>

definition decimal_digit :: "char \<Rightarrow> bool" where
  "decimal_digit c = (c \<in> set ''0123456789'')"

subsection \<open>Dates\<close>

text \<open>
  A naive \<^verbatim>\<open>datetime\<close> object. Its constructor checks the fields
  (\<^verbatim>\<open>_check_date_fields\<close>): the year in 1..9999, the month in 1..12, the day in
  1..\<^verbatim>\<open>_days_in_month(year, month)\<close>; the birthday code only builds midnights, so the
  time fields are not checked here. The message of an exception raised inside the
  standard library is cut down to its constant text.
\<close>

record datetime =
  year :: nat
  month :: nat
  day :: nat
  hour :: nat
  minute :: nat
  second :: nat
  microsecond :: nat

definition is_leap :: "nat \<Rightarrow> bool" where
  "is_leap y = (y mod 4 = 0 \<and> (y mod 100 \<noteq> 0 \<or> y mod 400 = 0))"

text \<open>The table \<^verbatim>\<open>_DAYS_IN_MONTH\<close> is read at months 1..12 only.\<close>

definition days_in_month :: "nat \<Rightarrow> nat \<Rightarrow> nat" where
  "days_in_month y m =
     (if m = 2 \<and> is_leap y then 29
      else [0, 31, 28, 31, 30, 31, 30, 31, 31, 30, 31, 30, 31] ! m)"

definition datetime_init :: "nat \<Rightarrow> nat \<Rightarrow> nat \<Rightarrow> error + datetime" where
  "datetime_init y m d =
     (if \<not> (1 \<le> y \<and> y \<le> 9999) then Inl (ValueError ''year is out of range'')
      else if \<not> (1 \<le> m \<and> m \<le> 12) then Inl (ValueError ''month must be in 1..12'')
      else if \<not> (1 \<le> d \<and> d \<le> days_in_month y m)
        then Inl (ValueError ''day is out of range for month'')
      else Inr \<lparr>year = y, month = m, day = d,
                hour = 0, minute = 0, second = 0, microsecond = 0\<rparr>)"

text \<open>
  \<^verbatim>\<open>dt.replace(year=y)\<close> builds a new object from the fields of \<open>dt\<close> with the year
  replaced, through the constructor and its checks.
\<close>

definition replace_year :: "datetime \<Rightarrow> nat \<Rightarrow> error + datetime" where
  "replace_year dt y =
     (case datetime_init y (month dt) (day dt) of
        Inl e \<Rightarrow> Inl e
      | Inr n \<Rightarrow> Inr (n\<lparr>hour := hour dt, minute := minute dt, second := second dt,
                          microsecond := microsecond dt\<rparr>))"

text \<open>Naive datetimes compare field by field, the year first.\<close>

definition datetime_key :: "datetime \<Rightarrow> nat \<times> nat \<times> nat \<times> nat \<times> nat \<times> nat \<times> nat" where
  "datetime_key dt =
     (year dt, month dt, day dt, hour dt, minute dt, second dt, microsecond dt)"

definition datetime_le :: "datetime \<Rightarrow> datetime \<Rightarrow> bool" where
  "datetime_le a b = (datetime_key a \<le> datetime_key b)"

text \<open>The calendar day of a datetime, \<^verbatim>\<open>dt.date()\<close>, as a triple ordered year first.\<close>

definition date_of :: "datetime \<Rightarrow> nat \<times> nat \<times> nat" where
  "date_of dt = (year dt, month dt, day dt)"

text \<open>
  \<^verbatim>\<open>dt + timedelta(days=n)\<close>: the calendar day moves \<open>n\<close> days on, the time of day
  stays; a result after the year 9999 raises \<^verbatim>\<open>OverflowError\<close>.
\<close>

definition next_day :: "datetime \<Rightarrow> datetime" where
  "next_day dt =
     (if day dt < days_in_month (year dt) (month dt) then dt\<lparr>day := day dt + 1\<rparr>
      else if month dt < 12 then dt\<lparr>month := month dt + 1, day := 1\<rparr>
      else dt\<lparr>year := year dt + 1, month := 1, day := 1\<rparr>)"

definition add_days :: "datetime \<Rightarrow> nat \<Rightarrow> error + datetime" where
  "add_days dt n =
     (let r = (next_day ^^ n) dt
      in if year r > 9999 then Inl (OverflowError ''date value out of range'') else Inr r)"

subsection \<open>Parsing and printing with the format \<^verbatim>\<open>%d.%m.%Y\<close>\<close>

text \<open>
  \<^verbatim>\<open>datetime.strptime(value, "%d.%m.%Y")\<close> compiles the format to the regular expression
  \<^verbatim>\<open>(?P<d>3[0-1]|[1-2]\d|0[1-9]|[1-9]| [1-9])\.(?P<m>1[0-2]|0[1-9]|[1-9])\.(?P<Y>\d\d\d\d)\<close>,
  matches it at the start of the string, refuses a match that leaves text over, converts
  the groups with \<^verbatim>\<open>int\<close> and builds the date.

  A matcher maps a string to the ways the expression matches a prefix of it, as pairs of
  the matched value and the rest, in the order a backtracking engine tries them;
  \<^verbatim>\<open>re.match\<close> takes the first.
\<close>

type_synonym 'a matcher = "string \<Rightarrow> ('a \<times> string) list"

definition re_char :: "(char \<Rightarrow> bool) \<Rightarrow> string matcher" where
  "re_char P s = (case s of [] \<Rightarrow> [] | c # r \<Rightarrow> if P c then [([c], r)] else [])"

definition re_alt :: "'a matcher \<Rightarrow> 'a matcher \<Rightarrow> 'a matcher" where
  "re_alt p q s = p s @ q s"

definition re_cat :: "string matcher \<Rightarrow> string matcher \<Rightarrow> string matcher" where
  "re_cat p q s = concat (map (\<lambda>(a, r). map (\<lambda>(b, r'). (a @ b, r')) (q r)) (p s))"

definition re_seq :: "'a matcher \<Rightarrow> 'b matcher \<Rightarrow> ('a \<times> 'b) matcher" where
  "re_seq p q s = concat (map (\<lambda>(a, r). map (\<lambda>(b, r'). ((a, b), r')) (q r)) (p s))"

definition lit :: "char \<Rightarrow> string matcher" where
  "lit c = re_char (\<lambda>x. x = c)"

definition re_range :: "char \<Rightarrow> char \<Rightarrow> string matcher" where
  "re_range lo hi =
     re_char (\<lambda>x. (of_char lo :: nat) \<le> of_char x \<and> (of_char x :: nat) \<le> of_char hi)"

text \<open>\<^verbatim>\<open>\d\<close>: among the code points below 256 the decimal digits are \<^verbatim>\<open>0\<close>..\<^verbatim>\<open>9\<close>.\<close>

definition re_d :: "string matcher" where
  "re_d = re_range CHR ''0'' CHR ''9''"

definition group_d :: "string matcher" where
  "group_d =
     re_alt (re_cat (lit CHR ''3'') (re_range CHR ''0'' CHR ''1''))
    (re_alt (re_cat (re_range CHR ''1'' CHR ''2'') re_d)
    (re_alt (re_cat (lit CHR ''0'') (re_range CHR ''1'' CHR ''9''))
    (re_alt (re_range CHR ''1'' CHR ''9'')
            (re_cat (lit CHR '' '') (re_range CHR ''1'' CHR ''9'')))))"

definition group_m :: "string matcher" where
  "group_m =
     re_alt (re_cat (lit CHR ''1'') (re_range CHR ''0'' CHR ''2''))
    (re_alt (re_cat (lit CHR ''0'') (re_range CHR ''1'' CHR ''9''))
            (re_range CHR ''1'' CHR ''9''))"

definition group_Y :: "string matcher" where
  "group_Y = re_cat re_d (re_cat re_d (re_cat re_d re_d))"

definition format_regex :: "((string \<times> string) \<times> (string \<times> string) \<times> string) matcher" where
  "format_regex =
     re_seq (re_seq group_d (lit CHR ''.'')) (re_seq (re_seq group_m (lit CHR ''.'')) group_Y)"

text \<open>
  \<^verbatim>\<open>int\<close> on the text of a group: decimal digits, after a blank in the last alternative
  of the day group (\<^verbatim>\<open>int\<close> skips surrounding blanks).
\<close>

definition digit_value :: "char \<Rightarrow> nat" where
  "digit_value c = of_char c - 48"

definition int_of :: "string \<Rightarrow> nat" where
  "int_of s = foldl (\<lambda>n c. 10 * n + digit_value c) 0 (dropWhile (\<lambda>c. c = CHR '' '') s)"

definition strptime :: "string \<Rightarrow> error + datetime" where
  "strptime data_string =
     (case format_regex data_string of
        [] \<Rightarrow> Inl (ValueError ''time data does not match format'')
      | (((d, dot1), (m, dot2), Y), rest) # others \<Rightarrow>
          if rest \<noteq> [] then Inl (ValueError ''unconverted data remains'')
          else datetime_init (int_of Y) (int_of m) (int_of d))"

text \<open>
  \<^verbatim>\<open>dt.strftime("%d.%m.%Y")\<close>: day and month with two digits, the year in decimal.
\<close>

definition digit_char :: "nat \<Rightarrow> char" where
  "digit_char n = ''0123456789'' ! n"

fun dec :: "nat \<Rightarrow> string" where
  "dec n = (if n < 10 then [digit_char n] else dec (n div 10) @ [digit_char (n mod 10)])"

definition two_digits :: "nat \<Rightarrow> string" where
  "two_digits n = [digit_char (n div 10 mod 10), digit_char (n mod 10)]"

definition strftime :: "datetime \<Rightarrow> string" where
  "strftime dt = two_digits (day dt) @ ''.'' @ two_digits (month dt) @ ''.'' @ dec (year dt)"

text \<open>
  The written forms of a date, for stating what \<^verbatim>\<open>Birthday\<close> accepts: a day below 10 is
  written with one digit, with a leading zero or with a leading blank, a month below 10
  with one digit or with a leading zero, the year with four digits.
\<close>

definition one_digit :: "nat \<Rightarrow> string" where
  "one_digit n = [digit_char n]"

definition four_digits :: "nat \<Rightarrow> string" where
  "four_digits n =
     [digit_char (n div 1000 mod 10), digit_char (n div 100 mod 10),
      digit_char (n div 10 mod 10), digit_char (n mod 10)]"

definition day_texts :: "nat \<Rightarrow> string list" where
  "day_texts d =
     (if d < 10 then [one_digit d, two_digits d, CHR '' '' # one_digit d] else [two_digits d])"

definition month_texts :: "nat \<Rightarrow> string list" where
  "month_texts m = (if m < 10 then [one_digit m, two_digits m] else [two_digits m])"

definition birthday_texts :: "nat \<Rightarrow> nat \<Rightarrow> nat \<Rightarrow> string list" where
  "birthday_texts y m d =
     concat (map (\<lambda>dt. map (\<lambda>mt. dt @ ''.'' @ mt @ ''.'' @ four_digits y) (month_texts m))
       (day_texts d))"

definition real_date :: "nat \<Rightarrow> nat \<Rightarrow> nat \<Rightarrow> bool" where
  "real_date y m d =
     (1 \<le> y \<and> y \<le> 9999 \<and> 1 \<le> m \<and> m \<le> 12 \<and> 1 \<le> d \<and> d \<le> days_in_month y m)"

text \<open>
  \<^verbatim>\<open>Birthday.__init__\<close>: the string is parsed for validation only and stored as it is;
  every \<^verbatim>\<open>ValueError\<close> of the parse is raised again with the message of the class.
\<close>

definition Birthday :: "string \<Rightarrow> error + Field" where
  "Birthday v =
     (case strptime v of
        Inr parsed \<Rightarrow> Inr (Field_of v)
      | Inl (ValueError msg) \<Rightarrow> Inl (ValueError ''Invalid date format. Use DD.MM.YYYY'')
      | Inl e \<Rightarrow> Inl e)"

subsection \<open>Record\<close>

record Record =
  name :: Field
  phones :: "Field list"
  birthday :: "Field option"

definition Record_init :: "string \<Rightarrow> error + Record" where
  "Record_init n =
     (case Name n of
        Inl e \<Rightarrow> Inl e
      | Inr nm \<Rightarrow> Inr \<lparr>name = nm, phones = [], birthday = None\<rparr>)"

text \<open>\<^verbatim>\<open>add_phone\<close>: \<^verbatim>\<open>self.phones.append(Phone(phone))\<close>; the constructor runs first.\<close>

definition add_phone :: "Record \<Rightarrow> string \<Rightarrow> (error + unit) \<times> Record" where
  "add_phone r phone =
     (case Phone phone of
        Inl e \<Rightarrow> (Inl e, r)
      | Inr p \<Rightarrow> (Inr (), r\<lparr>phones := phones r @ [p]\<rparr>))"

text \<open>\<^verbatim>\<open>find_phone\<close>: the first phone of the list whose value is the argument.\<close>

fun find_phone_in :: "Field list \<Rightarrow> string \<Rightarrow> Field option" where
  "find_phone_in [] phone = None"
| "find_phone_in (p # ps) phone =
     (if field_value p = phone then Some p else find_phone_in ps phone)"

definition find_phone :: "Record \<Rightarrow> string \<Rightarrow> Field option" where
  "find_phone r phone = find_phone_in (phones r) phone"

text \<open>
  \<^verbatim>\<open>list.remove(x)\<close> deletes the first item equal to \<open>x\<close> and raises \<^verbatim>\<open>ValueError\<close>
  when there is none. The phones of a list are compared as objects; the object
  \<^verbatim>\<open>find_phone\<close> returns is the first one of the list with that value, so the item
  deleted is the first one with that value.
\<close>

definition list_remove :: "'a list \<Rightarrow> 'a \<Rightarrow> error + 'a list" where
  "list_remove xs x =
     (if x \<in> set xs then Inr (remove1 x xs)
      else Inl (ValueError ''list.remove(x): x not in list''))"

definition remove_phone :: "Record \<Rightarrow> string \<Rightarrow> (error + unit) \<times> Record" where
  "remove_phone r phone =
     (case find_phone r phone of
        Some phone_to_remove \<Rightarrow>
          (case list_remove (phones r) phone_to_remove of
             Inl e \<Rightarrow> (Inl e, r)
           | Inr ps \<Rightarrow> (Inr (), r\<lparr>phones := ps\<rparr>))
      | None \<Rightarrow> (Inl (ValueError ''Phone not found.''), r))"

definition edit_phone :: "Record \<Rightarrow> string \<Rightarrow> string \<Rightarrow> (error + unit) \<times> Record" where
  "edit_phone r old_phone new_phone =
     (case find_phone r old_phone of
        Some phone_to_edit \<Rightarrow>
          (case add_phone r new_phone of
             (Inl e, r') \<Rightarrow> (Inl e, r')
           | (Inr u, r') \<Rightarrow> remove_phone r' old_phone)
      | None \<Rightarrow> (Inl (ValueError ''Phone not found.''), r))"

text \<open>\<^verbatim>\<open>add_birthday\<close>: \<^verbatim>\<open>self.birthday = Birthday(birthday)\<close>\<close>

definition add_birthday :: "Record \<Rightarrow> string \<Rightarrow> (error + unit) \<times> Record" where
  "add_birthday r v =
     (case Birthday v of
        Inl e \<Rightarrow> (Inl e, r)
      | Inr b \<Rightarrow> (Inr (), r\<lparr>birthday := Some b\<rparr>))"

subsection \<open>AddressBook\<close>

text \<open>
  \<^verbatim>\<open>class AddressBook(UserDict)\<close>: the attribute \<^verbatim>\<open>data\<close> is a \<^verbatim>\<open>dict\<close> from name to
  record. A \<^verbatim>\<open>dict\<close> keeps its keys in insertion order, which \<^verbatim>\<open>values()\<close> follows, so it
  is an association list with distinct keys: storing under a key that is present
  replaces the value in place, storing under a new key appends.
\<close>

record AddressBook =
  data :: "(string \<times> Record) list"

definition AddressBook_init :: "AddressBook" where
  "AddressBook_init = \<lparr>data = []\<rparr>"

definition add_record :: "AddressBook \<Rightarrow> Record \<Rightarrow> AddressBook" where
  "add_record b r = b\<lparr>data := AList.update (field_value (name r)) r (data b)\<rparr>"

definition find_record :: "AddressBook \<Rightarrow> string \<Rightarrow> Record option" where
  "find_record b n = map_of (data b) n"

definition delete :: "AddressBook \<Rightarrow> string \<Rightarrow> (error + unit) \<times> AddressBook" where
  "delete b n =
     (if n \<in> set (map fst (data b))
      then (Inr (), b\<lparr>data := AList.delete n (data b)\<rparr>)
      else (Inl (KeyError ''Contact not found.''), b))"

definition book_keys :: "AddressBook \<Rightarrow> string list" where
  "book_keys b = map fst (data b)"

text \<open>
  \<^verbatim>\<open>get_upcoming_birthdays\<close>. The clock, \<^verbatim>\<open>datetime.today()\<close>, is the argument \<open>today\<close>: a
  datetime with its time of day. An item of the result is the dictionary with the keys
  \<^verbatim>\<open>"name"\<close> and \<^verbatim>\<open>"birthday"\<close>. \<open>upcoming_entry\<close> is the body of the loop: what the
  iteration for one record appends, or the exception it raises; an exception ends the
  call.
\<close>

record upcoming =
  upcoming_name :: string
  upcoming_birthday :: string

definition upcoming_entry :: "datetime \<Rightarrow> datetime \<Rightarrow> Record \<Rightarrow> error + upcoming list" where
  "upcoming_entry today next_week record =
     (case birthday record of
        None \<Rightarrow> Inr []
      | Some b \<Rightarrow>
          (case strptime (field_value b) of
             Inl e \<Rightarrow> Inl e
           | Inr bday_date \<Rightarrow>
               (case replace_year bday_date (year today) of
                  Inl e \<Rightarrow> Inl e
                | Inr bday_this_year \<Rightarrow>
                    if datetime_le today bday_this_year \<and> datetime_le bday_this_year next_week
                    then Inr [\<lparr>upcoming_name = field_value (name record),
                               upcoming_birthday = strftime bday_this_year\<rparr>]
                    else Inr [])))"

fun upcoming_loop ::
  "datetime \<Rightarrow> datetime \<Rightarrow> Record list \<Rightarrow> upcoming list \<Rightarrow> error + upcoming list" where
  "upcoming_loop today next_week [] birthdays = Inr birthdays"
| "upcoming_loop today next_week (record # records) birthdays =
     (case upcoming_entry today next_week record of
        Inl e \<Rightarrow> Inl e
      | Inr new \<Rightarrow> upcoming_loop today next_week records (birthdays @ new))"

definition get_upcoming_birthdays :: "datetime \<Rightarrow> AddressBook \<Rightarrow> error + upcoming list" where
  "get_upcoming_birthdays today b =
     (case add_days today 7 of
        Inl e \<Rightarrow> Inl e
      | Inr next_week \<Rightarrow> upcoming_loop today next_week (map snd (data b)) [])"

section \<open>Properties\<close>

subsection \<open>Fields and records\<close>

lemma find_phone_in_None: "find_phone_in ps v = None \<longleftrightarrow> v \<notin> field_value ` set ps"
  by (induction ps) auto

lemma remove1_field_value:
  "map field_value (remove1 (Field_of v) ps) = remove1 v (map field_value ps)"
  by (induction ps) (auto simp: Field.expand)

lemma find_phone_in_present:
  "v \<in> field_value ` set ps \<Longrightarrow> find_phone_in ps v = Some (Field_of v)"
  by (induction ps) (auto simp: Field.expand)

text \<open>
  Claim C2. For a record whose phone list holds a phone with value \<open>old\<close>, and a \<open>new\<close>
  that \<^verbatim>\<open>Phone\<close> accepts, \<^verbatim>\<open>edit_phone(old, new)\<close> returns normally, and the phone values
  of the record are then those obtained by appending \<open>new\<close> at the tail and removing the
  first occurrence of \<open>old\<close>; the name and the birthday are untouched.
\<close>

theorem edit_phone_appends_then_removes:
  assumes "old \<in> field_value ` set (phones r)" and "Phone new = Inr p"
  shows "\<exists>r'. edit_phone r old new = (Inr (), r') \<and>
           map field_value (phones r') = remove1 old (map field_value (phones r) @ [new]) \<and>
           name r' = name r \<and> birthday r' = birthday r"
proof -
  have p: "p = Field_of new"
    using assms(2) by (auto simp: Phone_def Field_init_def split: if_splits)
  have f1: "find_phone r old = Some (Field_of old)"
    using assms(1) by (simp add: find_phone_def find_phone_in_present)
  have f2: "find_phone (r\<lparr>phones := phones r @ [p]\<rparr>) old = Some (Field_of old)"
    using assms(1) by (simp add: find_phone_def find_phone_in_present)
  have m: "Field_of old \<in> set (phones r @ [p])"
    using assms(1) by (auto simp: Field.expand)
  show ?thesis
    using assms(2) f1 f2 m
    by (simp add: edit_phone_def add_phone_def remove_phone_def list_remove_def p
        remove1_field_value)
qed

text \<open>
  The example of the claim: from the phones 1111111111, 2222222222 the edit of 1111111111
  into 3333333333 leaves 2222222222, 3333333333.
\<close>

theorem edit_phone_appends_then_removes_witness:
  "edit_phone \<lparr>name = Field_of ''John'',
               phones = [Field_of ''1111111111'', Field_of ''2222222222''],
               birthday = None\<rparr> ''1111111111'' ''3333333333''
   = (Inr (), \<lparr>name = Field_of ''John'',
               phones = [Field_of ''2222222222'', Field_of ''3333333333''],
               birthday = None\<rparr>)"
proof -
  let ?r = "\<lparr>name = Field_of ''John'',
               phones = [Field_of ''1111111111'', Field_of ''2222222222''],
               birthday = None\<rparr>"
  have a: "''1111111111'' \<in> field_value ` set (phones ?r)" by simp
  have b: "Phone ''3333333333'' = Inr (Field_of ''3333333333'')"
    by (simp add: Phone_def isdigit_def isdigit_char_def Field_init_def)
  from edit_phone_appends_then_removes [OF a b]
  obtain r' where r': "edit_phone ?r ''1111111111'' ''3333333333'' = (Inr (), r')"
    and ph: "map field_value (phones r') = [''2222222222'', ''3333333333'']"
    and nm: "name r' = Field_of ''John''" and bd: "birthday r' = None"
    by auto
  have "phones r' = [Field_of ''2222222222'', Field_of ''3333333333'']"
    using ph by (auto simp: map_eq_Cons_conv Field.expand)
  with nm bd have "r' = \<lparr>name = Field_of ''John'',
               phones = [Field_of ''2222222222'', Field_of ''3333333333''],
               birthday = None\<rparr>" by simp
  with r' show ?thesis by simp
qed

text \<open>
  Claim C3. A failing \<^verbatim>\<open>edit_phone\<close> changes nothing. When no phone of the record has the
  value \<open>old\<close> the call raises \<^verbatim>\<open>ValueError("Phone not found.")\<close> and the record is as
  before; when \<open>old\<close> is present and \<^verbatim>\<open>Phone\<close> rejects \<open>new\<close> the call raises the
  validation error \<^verbatim>\<open>ValueError("Phone number must be 10 digits.")\<close> and the record is as
  before: the constructor runs before the list is touched.
\<close>

theorem edit_phone_failure_leaves_record:
  "(old \<notin> field_value ` set (phones r) \<longrightarrow>
      edit_phone r old new = (Inl (ValueError ''Phone not found.''), r)) \<and>
   (old \<in> field_value ` set (phones r) \<and> Phone new = Inl e \<longrightarrow>
      e = ValueError ''Phone number must be 10 digits.'' \<and>
      edit_phone r old new = (Inl e, r))"
proof (intro conjI impI)
  assume "old \<notin> field_value ` set (phones r)"
  then have "find_phone r old = None"
    by (simp add: find_phone_def find_phone_in_None)
  then show "edit_phone r old new = (Inl (ValueError ''Phone not found.''), r)"
    by (simp add: edit_phone_def)
next
  assume a: "old \<in> field_value ` set (phones r) \<and> Phone new = Inl e"
  then show "e = ValueError ''Phone number must be 10 digits.''"
    by (auto simp: Phone_def Field_init_def split: if_splits)
next
  assume a: "old \<in> field_value ` set (phones r) \<and> Phone new = Inl e"
  then have "find_phone r old = Some (Field_of old)"
    by (simp add: find_phone_def find_phone_in_present)
  with a show "edit_phone r old new = (Inl e, r)"
    by (simp add: edit_phone_def add_phone_def)
qed

theorem edit_phone_failure_leaves_record_witness:
  "edit_phone \<lparr>name = Field_of ''John'', phones = [Field_of ''1111111111''], birthday = None\<rparr>
     ''2222222222'' ''3333333333''
   = (Inl (ValueError ''Phone not found.''),
      \<lparr>name = Field_of ''John'', phones = [Field_of ''1111111111''], birthday = None\<rparr>) \<and>
   edit_phone \<lparr>name = Field_of ''John'', phones = [Field_of ''1111111111''], birthday = None\<rparr>
     ''1111111111'' ''12345''
   = (Inl (ValueError ''Phone number must be 10 digits.''),
      \<lparr>name = Field_of ''John'', phones = [Field_of ''1111111111''], birthday = None\<rparr>)"
proof -
  let ?r = "\<lparr>name = Field_of ''John'', phones = [Field_of ''1111111111''], birthday = None\<rparr>"
  have a: "''2222222222'' \<notin> field_value ` set (phones ?r)" by simp
  have b: "''1111111111'' \<in> field_value ` set (phones ?r)" by simp
  have c: "Phone ''12345'' = Inl (ValueError ''Phone number must be 10 digits.'')"
    by (simp add: Phone_def)
  show ?thesis
    using edit_phone_failure_leaves_record [of "''2222222222''" ?r "''3333333333''"]
      edit_phone_failure_leaves_record [of "''1111111111''" ?r "''12345''"
        "ValueError ''Phone number must be 10 digits.''"] a b c
    by blast
qed

text \<open>
  Claim C5, evaluated where it fails. Ten superscript twos (U+00B2) are no decimal digit
  characters, but \<^verbatim>\<open>str.isdigit\<close> is true of them and they are ten, so \<^verbatim>\<open>Phone\<close> accepts
  the string and stores it, where the claim, and the message of the constructor
  (\<^verbatim>\<open>"Phone number must be 10 digits."\<close>), ask for a refusal.
\<close>

theorem Phone_accepts_superscript_twos:
  "Phone [CHR 0xB2, CHR 0xB2, CHR 0xB2, CHR 0xB2, CHR 0xB2,
          CHR 0xB2, CHR 0xB2, CHR 0xB2, CHR 0xB2, CHR 0xB2]
   = Inr (Field_of [CHR 0xB2, CHR 0xB2, CHR 0xB2, CHR 0xB2, CHR 0xB2,
          CHR 0xB2, CHR 0xB2, CHR 0xB2, CHR 0xB2, CHR 0xB2]) \<and>
   \<not> list_all decimal_digit [CHR 0xB2, CHR 0xB2, CHR 0xB2, CHR 0xB2, CHR 0xB2,
          CHR 0xB2, CHR 0xB2, CHR 0xB2, CHR 0xB2, CHR 0xB2]"
  by (simp add: Phone_def isdigit_def isdigit_char_def Field_init_def decimal_digit_def)

text \<open>So there is a phone whose value is that string.\<close>

theorem Phone_accepts_superscript_twos_witness:
  "\<exists>p. Phone [CHR 0xB2, CHR 0xB2, CHR 0xB2, CHR 0xB2, CHR 0xB2,
               CHR 0xB2, CHR 0xB2, CHR 0xB2, CHR 0xB2, CHR 0xB2] = Inr p \<and>
       field_value p = [CHR 0xB2, CHR 0xB2, CHR 0xB2, CHR 0xB2, CHR 0xB2,
               CHR 0xB2, CHR 0xB2, CHR 0xB2, CHR 0xB2, CHR 0xB2]"
  using Phone_accepts_superscript_twos by auto

text \<open>
  Claim C10. \<^verbatim>\<open>Name\<close> validates nothing: for every string, the empty one included,
  \<^verbatim>\<open>Name(value)\<close> and \<^verbatim>\<open>Record(name)\<close> succeed and hold the string as it is; the new
  record has no phone and no birthday.
\<close>

theorem Name_accepts_every_string:
  "Name v = Inr (Field_of v) \<and>
   Record_init v = Inr \<lparr>name = Field_of v, phones = [], birthday = None\<rparr>"
  by (simp add: Name_def Field_init_def Record_init_def)

theorem Name_accepts_every_string_witness:
  "Name '''' = Inr (Field_of '''') \<and>
   Record_init '''' = Inr \<lparr>name = Field_of '''', phones = [], birthday = None\<rparr>"
  using Name_accepts_every_string [of "''''"] by simp


subsection \<open>AddressBook\<close>

lemma alist_delete_filter: "AList.delete n al = filter (\<lambda>(k, r). k \<noteq> n) al"
  by (induction al) auto

text \<open>
  Claim C7. \<^verbatim>\<open>delete(name)\<close> on a book that has the key \<open>name\<close> returns normally and
  leaves the book without that entry, every other entry kept in its place; on a book
  without the key it raises \<^verbatim>\<open>KeyError("Contact not found.")\<close> and the book is as before.
\<close>

theorem delete_removes_or_raises:
  "(n \<in> set (book_keys b) \<longrightarrow>
      (\<exists>b'. delete b n = (Inr (), b') \<and>
            n \<notin> set (book_keys b') \<and> find_record b' n = None \<and>
            data b' = filter (\<lambda>(k, r). k \<noteq> n) (data b) \<and>
            (\<forall>m. m \<noteq> n \<longrightarrow> find_record b' m = find_record b m))) \<and>
   (n \<notin> set (book_keys b) \<longrightarrow>
      delete b n = (Inl (KeyError ''Contact not found.''), b))"
proof (intro conjI impI)
  assume "n \<in> set (book_keys b)"
  then have d: "delete b n = (Inr (), b\<lparr>data := AList.delete n (data b)\<rparr>)"
    by (simp add: delete_def book_keys_def)
  have k: "n \<notin> set (book_keys (b\<lparr>data := AList.delete n (data b)\<rparr>))"
    using delete_notin_dom [of n "data b"] by (simp add: book_keys_def)
  have f: "find_record (b\<lparr>data := AList.delete n (data b)\<rparr>) n = None"
    by (simp add: find_record_def delete_conv')
  have o: "\<forall>m. m \<noteq> n \<longrightarrow>
      find_record (b\<lparr>data := AList.delete n (data b)\<rparr>) m = find_record b m"
    by (simp add: find_record_def)
  show "\<exists>b'. delete b n = (Inr (), b') \<and>
            n \<notin> set (book_keys b') \<and> find_record b' n = None \<and>
            data b' = filter (\<lambda>(k, r). k \<noteq> n) (data b) \<and>
            (\<forall>m. m \<noteq> n \<longrightarrow> find_record b' m = find_record b m)"
    using d k f o by (simp add: alist_delete_filter)
next
  assume "n \<notin> set (book_keys b)"
  then show "delete b n = (Inl (KeyError ''Contact not found.''), b)"
    by (simp add: delete_def book_keys_def)
qed

theorem delete_removes_or_raises_witness:
  "delete \<lparr>data = [(''Ann'', \<lparr>name = Field_of ''Ann'', phones = [], birthday = None\<rparr>),
                    (''Bob'', \<lparr>name = Field_of ''Bob'', phones = [], birthday = None\<rparr>)]\<rparr> ''Ann''
   = (Inr (), \<lparr>data = [(''Bob'', \<lparr>name = Field_of ''Bob'', phones = [], birthday = None\<rparr>)]\<rparr>) \<and>
   delete \<lparr>data = [(''Bob'', \<lparr>name = Field_of ''Bob'', phones = [], birthday = None\<rparr>)]\<rparr> ''Ann''
   = (Inl (KeyError ''Contact not found.''),
      \<lparr>data = [(''Bob'', \<lparr>name = Field_of ''Bob'', phones = [], birthday = None\<rparr>)]\<rparr>)"
proof -
  let ?ann = "\<lparr>name = Field_of ''Ann'', phones = [], birthday = None\<rparr>"
  let ?bob = "\<lparr>name = Field_of ''Bob'', phones = [], birthday = None\<rparr>"
  let ?b = "\<lparr>data = [(''Ann'', ?ann), (''Bob'', ?bob)]\<rparr>"
  let ?c = "\<lparr>data = [(''Bob'', ?bob)]\<rparr>"
  have a: "''Ann'' \<in> set (book_keys ?b)" by (simp add: book_keys_def)
  have n: "''Ann'' \<notin> set (book_keys ?c)" by (simp add: book_keys_def)
  from delete_removes_or_raises [of "''Ann''" ?b] a
  obtain b' where b': "delete ?b ''Ann'' = (Inr (), b')"
    and d: "data b' = filter (\<lambda>(k, r). k \<noteq> ''Ann'') (data ?b)"
    by blast
  from d have "b' = ?c" by simp
  with b' delete_removes_or_raises [of "''Ann''" ?c] n show ?thesis by simp
qed

subsection \<open>Evaluating dates\<close>

lemma funpow_numeral_unfold: "(f ^^ numeral k) x = (f ^^ pred_numeral k) (f x)"
  by (simp add: numeral_eq_Suc funpow_swap1)

lemmas re_defs = format_regex_def group_d_def group_m_def group_Y_def re_d_def re_range_def
  lit_def re_char_def re_alt_def re_cat_def re_seq_def

lemmas date_defs = strptime_def int_of_def digit_value_def datetime_init_def
  days_in_month_def is_leap_def replace_year_def add_days_def next_day_def datetime_le_def
  datetime_key_def strftime_def two_digits_def digit_char_def funpow_numeral_unfold

subsection \<open>What \<^verbatim>\<open>strptime\<close> accepts\<close>

text \<open>Digits and their characters.\<close>

lemma of_char_digit_char: "n < 10 \<Longrightarrow> of_char (digit_char n) = (48 + n :: nat)"
proof -
  assume "n < 10"
  then have "n \<in> {0, 1, 2, 3, 4, 5, 6, 7, 8, 9}" by auto
  then show ?thesis by (auto simp: digit_char_def)
qed

lemma digit_char_of_char:
  assumes "48 \<le> (of_char c :: nat)" and "(of_char c :: nat) \<le> 57"
  shows "digit_char (of_char c - 48) = c"
proof -
  have "(of_char (digit_char (of_char c - 48)) :: nat) = of_char c"
    using assms by (simp add: of_char_digit_char)
  then show ?thesis by (simp only: of_char_eq_iff)
qed

lemma digit_value_digit_char: "n < 10 \<Longrightarrow> digit_value (digit_char n) = n"
  by (simp add: digit_value_def of_char_digit_char)

lemma digit_charE:
  assumes "48 \<le> (of_char c :: nat)" and "(of_char c :: nat) \<le> 57"
  obtains n where "n < 10" and "c = digit_char n" and "(of_char c :: nat) = 48 + n"
proof
  show "of_char c - 48 < (10::nat)" using assms by simp
  show "c = digit_char (of_char c - 48)" using assms by (simp add: digit_char_of_char)
  show "(of_char c :: nat) = 48 + (of_char c - 48)" using assms by simp
qed

lemma re_char_simps:
  "re_char P [] = []"
  "re_char P (c # r) = (if P c then [([c], r)] else [])"
  by (simp_all add: re_char_def)

lemma in_re_char: "(t, r) \<in> set (re_char P s) \<longleftrightarrow> (\<exists>c. s = c # r \<and> t = [c] \<and> P c)"
  by (cases s) (auto simp: re_char_def)

lemma in_re_alt: "x \<in> set (re_alt p q s) \<longleftrightarrow> x \<in> set (p s) \<or> x \<in> set (q s)"
  by (simp add: re_alt_def)

lemma in_re_cat:
  "(t, r) \<in> set (re_cat p q s) \<longleftrightarrow>
     (\<exists>a b r1. t = a @ b \<and> (a, r1) \<in> set (p s) \<and> (b, r) \<in> set (q r1))"
  by (force simp: re_cat_def)

lemma in_re_seq:
  "(x, r) \<in> set (re_seq p q s) \<longleftrightarrow>
     (\<exists>a b r1. x = (a, b) \<and> (a, r1) \<in> set (p s) \<and> (b, r) \<in> set (q r1))"
  by (force simp: re_seq_def)

lemma in_lit: "(t, r) \<in> set (lit c s) \<longleftrightarrow> s = c # r \<and> t = [c]"
  by (auto simp: lit_def in_re_char)

lemma in_re_range:
  "(t, r) \<in> set (re_range lo hi s) \<longleftrightarrow>
     (\<exists>c. s = c # r \<and> t = [c] \<and> (of_char lo :: nat) \<le> of_char c \<and> (of_char c :: nat) \<le> of_char hi)"
  by (simp add: re_range_def in_re_char)

lemma int_of_two: "a \<noteq> CHR '' '' \<Longrightarrow> int_of [a, b] = 10 * digit_value a + digit_value b"
  by (simp add: int_of_def)

lemma int_of_one: "a \<noteq> CHR '' '' \<Longrightarrow> int_of [a] = digit_value a"
  by (simp add: int_of_def)

lemma int_of_blank: "b \<noteq> CHR '' '' \<Longrightarrow> int_of [CHR '' '', b] = digit_value b"
  by (simp add: int_of_def)

lemma digit_char_not_blank: "n < 10 \<Longrightarrow> digit_char n \<noteq> CHR '' ''"
  using of_char_digit_char [of n] by (auto simp del: of_char_eq_iff)

lemma two_digits_eq: "a < 10 \<Longrightarrow> b < 10 \<Longrightarrow> two_digits (10 * a + b) = [digit_char a, digit_char b]"
  by (simp add: two_digits_def)

lemma day_two_digits:
  assumes "a < 10" "b < 10"
  shows "int_of [digit_char a, digit_char b] = 10 * a + b"
    and "[digit_char a, digit_char b] \<in> set (day_texts (10 * a + b))"
    and "[digit_char a, digit_char b] \<in> set (month_texts (10 * a + b))"
proof -
  show "int_of [digit_char a, digit_char b] = 10 * a + b"
    using assms by (simp add: int_of_two digit_char_not_blank digit_value_digit_char)
  have "two_digits (10 * a + b) = [digit_char a, digit_char b]"
    using assms by (rule two_digits_eq)
  then show "[digit_char a, digit_char b] \<in> set (day_texts (10 * a + b))"
    and "[digit_char a, digit_char b] \<in> set (month_texts (10 * a + b))"
    by (simp_all add: day_texts_def month_texts_def)
qed

lemma day_one_digit:
  assumes "n < 10"
  shows "int_of [digit_char n] = n"
    and "[digit_char n] \<in> set (day_texts n)"
    and "[digit_char n] \<in> set (month_texts n)"
    and "int_of [CHR '' '', digit_char n] = n"
    and "[CHR '' '', digit_char n] \<in> set (day_texts n)"
  using assms
  by (simp_all add: int_of_one int_of_blank digit_char_not_blank digit_value_digit_char
      day_texts_def month_texts_def one_digit_def)

lemma two_digit_text:
  assumes "48 \<le> (of_char a :: nat)" "(of_char a :: nat) \<le> 57"
    and "48 \<le> (of_char b :: nat)" "(of_char b :: nat) \<le> 57"
  shows "int_of [a, b] = 10 * (of_char a - 48) + (of_char b - 48)"
    and "[a, b] \<in> set (day_texts (int_of [a, b]))"
    and "[a, b] \<in> set (month_texts (int_of [a, b]))"
proof -
  from assms(1,2) obtain na where na: "na < 10" "a = digit_char na" "(of_char a :: nat) = 48 + na"
    by (rule digit_charE)
  from assms(3,4) obtain nb where nb: "nb < 10" "b = digit_char nb" "(of_char b :: nat) = 48 + nb"
    by (rule digit_charE)
  show "int_of [a, b] = 10 * (of_char a - 48) + (of_char b - 48)"
    using na nb day_two_digits(1) [of na nb] by simp
  show "[a, b] \<in> set (day_texts (int_of [a, b]))"
    using na nb day_two_digits(1,2) [of na nb] by simp
  show "[a, b] \<in> set (month_texts (int_of [a, b]))"
    using na nb day_two_digits(1,3) [of na nb] by simp
qed

lemma one_digit_text:
  assumes "49 \<le> (of_char b :: nat)" "(of_char b :: nat) \<le> 57"
  shows "int_of [b] = of_char b - 48"
    and "[b] \<in> set (day_texts (int_of [b]))"
    and "[b] \<in> set (month_texts (int_of [b]))"
    and "int_of [CHR '' '', b] = of_char b - 48"
    and "[CHR '' '', b] \<in> set (day_texts (int_of [CHR '' '', b]))"
proof -
  have "48 \<le> (of_char b :: nat)" using assms(1) by simp
  from this assms(2) obtain n where n: "n < 10" "b = digit_char n" "(of_char b :: nat) = 48 + n"
    by (rule digit_charE)
  show "int_of [b] = of_char b - 48"
    using n day_one_digit(1) [of n] by simp
  show "[b] \<in> set (day_texts (int_of [b]))"
    using n day_one_digit(1,2) [of n] by simp
  show "[b] \<in> set (month_texts (int_of [b]))"
    using n day_one_digit(1,3) [of n] by simp
  show "int_of [CHR '' '', b] = of_char b - 48"
    using n day_one_digit(4) [of n] by simp
  show "[CHR '' '', b] \<in> set (day_texts (int_of [CHR '' '', b]))"
    using n day_one_digit(4,5) [of n] by simp
qed

lemma in_two_chars:
  "(t, r) \<in> set (re_cat (re_char P) (re_char Q) s) \<longleftrightarrow>
     (\<exists>a b. s = a # b # r \<and> t = [a, b] \<and> P a \<and> Q b)"
  by (auto simp: in_re_cat in_re_char)

lemma group_d_sound:
  assumes "(t, r) \<in> set (group_d s)"
  shows "s = t @ r \<and> 1 \<le> int_of t \<and> int_of t \<le> 31 \<and> t \<in> set (day_texts (int_of t))"
proof -
  from assms consider
      (a1) "(t, r) \<in> set (re_cat (lit CHR ''3'') (re_range CHR ''0'' CHR ''1'') s)"
    | (a2) "(t, r) \<in> set (re_cat (re_range CHR ''1'' CHR ''2'') re_d s)"
    | (a3) "(t, r) \<in> set (re_cat (lit CHR ''0'') (re_range CHR ''1'' CHR ''9'') s)"
    | (a4) "(t, r) \<in> set (re_range CHR ''1'' CHR ''9'' s)"
    | (a5) "(t, r) \<in> set (re_cat (lit CHR '' '') (re_range CHR ''1'' CHR ''9'') s)"
    by (auto simp: group_d_def in_re_alt)
  then show ?thesis
  proof cases
    case a1
    then obtain b where b: "s = CHR ''3'' # b # r" "t = [CHR ''3'', b]"
      "48 \<le> (of_char b :: nat)" "(of_char b :: nat) \<le> 49"
      by (auto simp: lit_def re_range_def in_two_chars)
    then show ?thesis
      using two_digit_text [of "CHR ''3''" b] by (simp; arith)
  next
    case a2
    then obtain a b where b: "s = a # b # r" "t = [a, b]"
      "49 \<le> (of_char a :: nat)" "(of_char a :: nat) \<le> 50"
      "48 \<le> (of_char b :: nat)" "(of_char b :: nat) \<le> 57"
      by (auto simp: re_d_def re_range_def in_two_chars)
    then show ?thesis
      using two_digit_text [of a b] by (simp; arith)
  next
    case a3
    then obtain b where b: "s = CHR ''0'' # b # r" "t = [CHR ''0'', b]"
      "49 \<le> (of_char b :: nat)" "(of_char b :: nat) \<le> 57"
      by (auto simp: lit_def re_range_def in_two_chars)
    then show ?thesis
      using two_digit_text [of "CHR ''0''" b] by (simp; arith)
  next
    case a4
    then obtain b where b: "s = b # r" "t = [b]"
      "49 \<le> (of_char b :: nat)" "(of_char b :: nat) \<le> 57"
      by (auto simp: re_range_def in_re_char)
    then show ?thesis
      using one_digit_text(1,2) [of b] by (simp; arith)
  next
    case a5
    then obtain b where b: "s = CHR '' '' # b # r" "t = [CHR '' '', b]"
      "49 \<le> (of_char b :: nat)" "(of_char b :: nat) \<le> 57"
      by (auto simp: lit_def re_range_def in_two_chars)
    then show ?thesis
      using one_digit_text(4,5) [of b] by (simp; arith)
  qed
qed

lemma group_m_sound:
  assumes "(t, r) \<in> set (group_m s)"
  shows "s = t @ r \<and> 1 \<le> int_of t \<and> int_of t \<le> 12 \<and> t \<in> set (month_texts (int_of t))"
proof -
  from assms consider
      (a1) "(t, r) \<in> set (re_cat (lit CHR ''1'') (re_range CHR ''0'' CHR ''2'') s)"
    | (a2) "(t, r) \<in> set (re_cat (lit CHR ''0'') (re_range CHR ''1'' CHR ''9'') s)"
    | (a3) "(t, r) \<in> set (re_range CHR ''1'' CHR ''9'' s)"
    by (auto simp: group_m_def in_re_alt)
  then show ?thesis
  proof cases
    case a1
    then obtain b where b: "s = CHR ''1'' # b # r" "t = [CHR ''1'', b]"
      "48 \<le> (of_char b :: nat)" "(of_char b :: nat) \<le> 50"
      by (auto simp: lit_def re_range_def in_two_chars)
    then show ?thesis
      using two_digit_text [of "CHR ''1''" b] by (simp; arith)
  next
    case a2
    then obtain b where b: "s = CHR ''0'' # b # r" "t = [CHR ''0'', b]"
      "49 \<le> (of_char b :: nat)" "(of_char b :: nat) \<le> 57"
      by (auto simp: lit_def re_range_def in_two_chars)
    then show ?thesis
      using two_digit_text [of "CHR ''0''" b] by (simp; arith)
  next
    case a3
    then obtain b where b: "s = b # r" "t = [b]"
      "49 \<le> (of_char b :: nat)" "(of_char b :: nat) \<le> 57"
      by (auto simp: re_range_def in_re_char)
    then show ?thesis
      using one_digit_text(1,3) [of b] by (simp; arith)
  qed
qed

text \<open>The groups of the expression, computed on the texts they accept.\<close>

lemmas re_unfold = group_d_def group_m_def group_Y_def re_d_def re_range_def
  lit_def re_char_def re_alt_def re_cat_def re_seq_def

lemma day_dot_one:
  assumes "49 \<le> (of_char x :: nat)" "(of_char x :: nat) \<le> 57"
  shows "re_seq group_d (lit CHR ''.'') (x # CHR ''.'' # r) = [(([x], ''.''), r)]"
  using assms by (auto simp: re_unfold)

lemma day_dot_zero:
  assumes "49 \<le> (of_char x :: nat)" "(of_char x :: nat) \<le> 57"
  shows "re_seq group_d (lit CHR ''.'') (CHR ''0'' # x # CHR ''.'' # r) = [(([CHR ''0'', x], ''.''), r)]"
  using assms by (auto simp: re_unfold)

lemma day_dot_blank:
  assumes "49 \<le> (of_char x :: nat)" "(of_char x :: nat) \<le> 57"
  shows "re_seq group_d (lit CHR ''.'') (CHR '' '' # x # CHR ''.'' # r) = [(([CHR '' '', x], ''.''), r)]"
  using assms by (auto simp: re_unfold)

lemma char_eq_nat: "a = c \<longleftrightarrow> (of_char a :: nat) = of_char c"
  by simp

lemma day_dot_two:
  assumes "49 \<le> (of_char a :: nat)" "(of_char a :: nat) \<le> 51"
    and "48 \<le> (of_char b :: nat)" "(of_char b :: nat) \<le> 57"
    and "(of_char a :: nat) = 51 \<longrightarrow> (of_char b :: nat) \<le> 49"
  shows "re_seq group_d (lit CHR ''.'') (a # b # CHR ''.'' # r) = [(([a, b], ''.''), r)]"
  using assms by (auto simp: re_unfold char_eq_nat [of a "CHR ''3''"])

lemma month_dot_one:
  assumes "49 \<le> (of_char x :: nat)" "(of_char x :: nat) \<le> 57"
  shows "re_seq group_m (lit CHR ''.'') (x # CHR ''.'' # r) = [(([x], ''.''), r)]"
  using assms by (auto simp: re_unfold)

lemma month_dot_zero:
  assumes "49 \<le> (of_char x :: nat)" "(of_char x :: nat) \<le> 57"
  shows "re_seq group_m (lit CHR ''.'') (CHR ''0'' # x # CHR ''.'' # r) = [(([CHR ''0'', x], ''.''), r)]"
  using assms by (auto simp: re_unfold)

lemma month_dot_two:
  assumes "48 \<le> (of_char b :: nat)" "(of_char b :: nat) \<le> 50"
  shows "re_seq group_m (lit CHR ''.'') (CHR ''1'' # b # CHR ''.'' # r) = [(([CHR ''1'', b], ''.''), r)]"
  using assms by (auto simp: re_unfold)

lemma year_four:
  assumes "48 \<le> (of_char a :: nat)" "(of_char a :: nat) \<le> 57"
    and "48 \<le> (of_char b :: nat)" "(of_char b :: nat) \<le> 57"
    and "48 \<le> (of_char c :: nat)" "(of_char c :: nat) \<le> 57"
    and "48 \<le> (of_char d :: nat)" "(of_char d :: nat) \<le> 57"
  shows "group_Y (a # b # c # d # r) = [([a, b, c, d], r)]"
  using assms by (simp add: re_unfold)

lemma group_Y_iff:
  "(t, r) \<in> set (group_Y s) \<longleftrightarrow>
     (\<exists>a b c d. s = a # b # c # d # r \<and> t = [a, b, c, d] \<and>
        48 \<le> (of_char a :: nat) \<and> (of_char a :: nat) \<le> 57 \<and>
        48 \<le> (of_char b :: nat) \<and> (of_char b :: nat) \<le> 57 \<and>
        48 \<le> (of_char c :: nat) \<and> (of_char c :: nat) \<le> 57 \<and>
        48 \<le> (of_char d :: nat) \<and> (of_char d :: nat) \<le> 57)"
  by (auto simp: group_Y_def re_d_def re_range_def in_re_cat in_re_char)

lemma int_of_four:
  assumes "a < 10" "b < 10" "c < 10" "d < 10"
  shows "int_of [digit_char a, digit_char b, digit_char c, digit_char d]
         = 1000 * a + 100 * b + 10 * c + d"
  using assms by (simp add: int_of_def digit_char_not_blank digit_value_digit_char)

lemma div_mod_10:
  fixes k d :: nat
  assumes "d < 10"
  shows "(10 * k + d) div 10 = k" and "(10 * k + d) mod 10 = d"
  using assms by simp_all

lemma four_digits_eq:
  assumes "a < 10" "b < 10" "c < 10" "d < 10"
  shows "four_digits (1000 * a + 100 * b + 10 * c + d)
         = [digit_char a, digit_char b, digit_char c, digit_char d]"
proof -
  let ?n = "1000 * a + 100 * b + 10 * c + d"
  have n: "?n = 10 * (10 * (10 * a + b) + c) + d" by simp
  have d1: "?n div 10 = 10 * (10 * a + b) + c"
    unfolding n using assms(4) by (rule div_mod_10(1))
  have d2: "?n div 100 = 10 * a + b"
  proof -
    have "?n div 100 = ?n div 10 div 10" by (simp add: div_mult2_eq [symmetric])
    also have "\<dots> = 10 * a + b" unfolding d1 using assms(3) by (rule div_mod_10(1))
    finally show ?thesis .
  qed
  have d3: "?n div 1000 = a"
  proof -
    have "?n div 1000 = ?n div 100 div 10" by (simp add: div_mult2_eq [symmetric])
    also have "\<dots> = a" unfolding d2 using assms(2) by (rule div_mod_10(1))
    finally show ?thesis .
  qed
  have m0: "?n mod 10 = d" unfolding n using assms(4) by (rule div_mod_10(2))
  have m1: "?n div 10 mod 10 = c" unfolding d1 using assms(3) by (rule div_mod_10(2))
  have m2: "?n div 100 mod 10 = b" unfolding d2 using assms(2) by (rule div_mod_10(2))
  have m3: "?n div 1000 mod 10 = a" unfolding d3 using assms(1) by simp
  show ?thesis by (simp only: four_digits_def m0 m1 m2 m3)
qed

text \<open>Every match is a written date.\<close>

lemma group_Y_sound:
  assumes "(t, r) \<in> set (group_Y s)"
  shows "s = t @ r \<and> int_of t \<le> 9999 \<and> t = four_digits (int_of t)"
proof -
  from assms obtain a b c d where s: "s = a # b # c # d # r" "t = [a, b, c, d]"
    and a: "48 \<le> (of_char a :: nat)" "(of_char a :: nat) \<le> 57"
    and b: "48 \<le> (of_char b :: nat)" "(of_char b :: nat) \<le> 57"
    and c: "48 \<le> (of_char c :: nat)" "(of_char c :: nat) \<le> 57"
    and d: "48 \<le> (of_char d :: nat)" "(of_char d :: nat) \<le> 57"
    unfolding group_Y_iff by blast
  from a obtain na where na: "na < 10" "a = digit_char na" by (rule digit_charE)
  from b obtain nb where nb: "nb < 10" "b = digit_char nb" by (rule digit_charE)
  from c obtain nc where nc: "nc < 10" "c = digit_char nc" by (rule digit_charE)
  from d obtain nd where nd: "nd < 10" "d = digit_char nd" by (rule digit_charE)
  have i: "int_of t = 1000 * na + 100 * nb + 10 * nc + nd"
    using s(2) na nb nc nd by (simp add: int_of_four)
  have "int_of t \<le> 9999" unfolding i using na(1) nb(1) nc(1) nd(1) by arith
  moreover have "t = four_digits (int_of t)"
    unfolding i using s(2) na nb nc nd by (simp add: four_digits_eq)
  ultimately show ?thesis using s by simp
qed

lemma days_in_month_le_31: "days_in_month y m \<le> 31" if "1 \<le> m" "m \<le> 12"
proof -
  from that have "m \<in> {1, 2, 3, 4, 5, 6, 7, 8, 9, 10, 11, 12}" by (simp; arith)
  then show ?thesis by (auto simp: days_in_month_def)
qed

lemma datetime_init_Inr:
  "datetime_init y m d = Inr dt \<longleftrightarrow>
     real_date y m d \<and>
     dt = \<lparr>year = y, month = m, day = d, hour = 0, minute = 0, second = 0, microsecond = 0\<rparr>"
  by (auto simp: datetime_init_def real_date_def)

lemma datetime_init_error: "datetime_init y m d = Inl e \<Longrightarrow> \<exists>msg. e = ValueError msg"
  by (auto simp: datetime_init_def split: if_splits)

lemma strptime_error: "strptime v = Inl e \<Longrightarrow> \<exists>msg. e = ValueError msg"
  by (auto simp: strptime_def split: list.splits if_splits dest: datetime_init_error)

lemma Birthday_cases:
  "Birthday v = (case strptime v of Inr dt \<Rightarrow> Inr (Field_of v)
     | Inl e \<Rightarrow> Inl (ValueError ''Invalid date format. Use DD.MM.YYYY''))"
  by (auto simp: Birthday_def split: sum.splits error.splits dest: strptime_error)

lemma strptime_sound:
  assumes "strptime v = Inr dt"
  shows "\<exists>y m d. real_date y m d \<and> v \<in> set (birthday_texts y m d)"
proof -
  from assms obtain dt' p1 mt p2 yt others
    where fr: "format_regex v = (((dt', p1), (mt, p2), yt), []) # others"
      and di: "datetime_init (int_of yt) (int_of mt) (int_of dt') = Inr dt"
    by (auto simp: strptime_def split: list.splits if_splits)
  have "(((dt', p1), (mt, p2), yt), []) \<in> set (format_regex v)"
    unfolding fr by simp
  then obtain r1 r2 r3 r4
    where 1: "(dt', r1) \<in> set (group_d v)" and 2: "(p1, r2) \<in> set (lit CHR ''.'' r1)"
      and 3: "(mt, r3) \<in> set (group_m r2)" and 4: "(p2, r4) \<in> set (lit CHR ''.'' r3)"
      and 5: "(yt, []) \<in> set (group_Y r4)"
    unfolding format_regex_def in_re_seq by blast
  from 1 have d: "v = dt' @ r1" "dt' \<in> set (day_texts (int_of dt'))"
    using group_d_sound by blast+
  from 2 have p1: "r1 = CHR ''.'' # r2" by (simp add: in_lit)
  from 3 have m: "r2 = mt @ r3" "mt \<in> set (month_texts (int_of mt))"
    using group_m_sound by blast+
  from 4 have p2: "r3 = CHR ''.'' # r4" by (simp add: in_lit)
  from 5 have y: "r4 = yt" "yt = four_digits (int_of yt)"
    using group_Y_sound [of yt "[]" r4] by simp_all
  have v: "v = dt' @ ''.'' @ mt @ ''.'' @ four_digits (int_of yt)"
    using d(1) p1 m(1) p2 y by simp
  have "v \<in> set (birthday_texts (int_of yt) (int_of mt) (int_of dt'))"
    unfolding birthday_texts_def using d(2) m(2) v by auto
  moreover have "real_date (int_of yt) (int_of mt) (int_of dt')"
    using di by (simp add: datetime_init_Inr)
  ultimately show ?thesis by blast
qed

text \<open>Every written date is matched, in one way.\<close>

lemma re_seq_single:
  "p s = [(a, r)] \<Longrightarrow> re_seq p q s = map (\<lambda>(b, r'). ((a, b), r')) (q r)"
  by (simp add: re_seq_def)

lemma digit_char_0: "digit_char 0 = CHR ''0''"
  by (simp add: digit_char_def)

lemma day_dot_complete:
  assumes "1 \<le> d" "d \<le> 31" "dt \<in> set (day_texts d)"
  shows "re_seq group_d (lit CHR ''.'') (dt @ CHR ''.'' # r) = [((dt, ''.''), r)] \<and> int_of dt = d"
proof (cases "d < 10")
  case True
  let ?x = "digit_char d"
  have x: "49 \<le> (of_char ?x :: nat)" "(of_char ?x :: nat) \<le> 57"
    using True assms(1) by (simp_all add: of_char_digit_char)
  have two: "two_digits d = [CHR ''0'', ?x]"
    using True by (simp add: two_digits_def digit_char_0)
  from assms(3) True consider "dt = [?x]" | "dt = [CHR ''0'', ?x]" | "dt = [CHR '' '', ?x]"
    by (auto simp: day_texts_def one_digit_def two)
  then show ?thesis
  proof cases
    case 1
    then show ?thesis using day_dot_one [OF x] day_one_digit(1) [OF True] by simp
  next
    case 2
    have "int_of [CHR ''0'', ?x] = d"
      using day_two_digits(1) [of 0 d] True by (simp add: digit_char_0)
    with 2 show ?thesis using day_dot_zero [OF x] by simp
  next
    case 3
    then show ?thesis using day_dot_blank [OF x] day_one_digit(4) [OF True] by simp
  qed
next
  case False
  let ?a = "digit_char (d div 10)" and ?b = "digit_char (d mod 10)"
  have q: "d div 10 < 10" "d mod 10 < 10" "1 \<le> d div 10" "d div 10 \<le> 3"
    using False assms(2) by simp_all
  have dt: "dt = [?a, ?b]"
    using assms(3) False q by (simp add: day_texts_def two_digits_def)
  have a: "49 \<le> (of_char ?a :: nat)" "(of_char ?a :: nat) \<le> 51"
    using q by (simp_all add: of_char_digit_char)
  have b: "48 \<le> (of_char ?b :: nat)" "(of_char ?b :: nat) \<le> 57"
    using q by (simp_all add: of_char_digit_char)
  have c: "(of_char ?a :: nat) = 51 \<longrightarrow> (of_char ?b :: nat) \<le> 49"
    using q assms(2) by (simp add: of_char_digit_char) arith
  have "int_of [?a, ?b] = d"
    using day_two_digits(1) [OF q(1,2)] by simp
  with dt show ?thesis using day_dot_two [OF a b c] by simp
qed

lemma month_dot_complete:
  assumes "1 \<le> m" "m \<le> 12" "mt \<in> set (month_texts m)"
  shows "re_seq group_m (lit CHR ''.'') (mt @ CHR ''.'' # r) = [((mt, ''.''), r)] \<and> int_of mt = m"
proof (cases "m < 10")
  case True
  let ?x = "digit_char m"
  have x: "49 \<le> (of_char ?x :: nat)" "(of_char ?x :: nat) \<le> 57"
    using True assms(1) by (simp_all add: of_char_digit_char)
  have two: "two_digits m = [CHR ''0'', ?x]"
    using True by (simp add: two_digits_def digit_char_0)
  from assms(3) True consider "mt = [?x]" | "mt = [CHR ''0'', ?x]"
    by (auto simp: month_texts_def one_digit_def two)
  then show ?thesis
  proof cases
    case 1
    then show ?thesis using month_dot_one [OF x] day_one_digit(1) [OF True] by simp
  next
    case 2
    have "int_of [CHR ''0'', ?x] = m"
      using day_two_digits(1) [of 0 m] True by (simp add: digit_char_0)
    with 2 show ?thesis using month_dot_zero [OF x] by simp
  qed
next
  case False
  let ?b = "digit_char (m mod 10)"
  have "m = 10 \<or> m = 11 \<or> m = 12"
    using False assms(2) by arith
  then have q: "m div 10 = 1" "m mod 10 < 10" "m mod 10 \<le> 2"
    by auto
  have one: "digit_char (Suc 0) = CHR ''1''" by (simp add: digit_char_def)
  have mt: "mt = [CHR ''1'', ?b]"
    using assms(3) False q by (simp add: month_texts_def two_digits_def one)
  have b: "48 \<le> (of_char ?b :: nat)" "(of_char ?b :: nat) \<le> 50"
    using q by (simp_all add: of_char_digit_char)
  have "int_of [digit_char (Suc 0), ?b] = 10 * Suc 0 + m mod 10"
    using q(2) by (intro day_two_digits(1)) simp_all
  also have "\<dots> = m" using \<open>m = 10 \<or> m = 11 \<or> m = 12\<close> by auto
  finally have "int_of [CHR ''1'', ?b] = m" by (simp add: one)
  with mt show ?thesis using month_dot_two [OF b] by simp
qed

lemma four_digits_value:
  fixes y :: nat
  assumes "y \<le> 9999"
  shows "1000 * (y div 1000 mod 10) + 100 * (y div 100 mod 10) + 10 * (y div 10 mod 10) + y mod 10 = y"
proof -
  have h10: "y div 100 = y div 10 div 10" by (simp add: div_mult2_eq [symmetric])
  have h100: "y div 1000 = y div 100 div 10" by (simp add: div_mult2_eq [symmetric])
  have e1: "y = 10 * (y div 10) + y mod 10" by simp
  have e2: "y div 10 = 10 * (y div 100) + y div 10 mod 10" unfolding h10 by simp
  have e3: "y div 100 = 10 * (y div 1000) + y div 100 mod 10" unfolding h100 by simp
  have e4: "y div 1000 mod 10 = y div 1000" using assms by simp
  show ?thesis using e1 e2 e3 e4 by arith
qed

lemma year_complete:
  assumes "y \<le> 9999"
  shows "group_Y (four_digits y) = [(four_digits y, [])] \<and> int_of (four_digits y) = y"
proof -
  let ?a = "y div 1000 mod 10" and ?b = "y div 100 mod 10"
    and ?c = "y div 10 mod 10" and ?d = "y mod 10"
  have lt: "?a < 10" "?b < 10" "?c < 10" "?d < 10" by simp_all
  have "group_Y (four_digits y) = [(four_digits y, [])]"
    unfolding four_digits_def
    by (rule year_four) (simp_all add: of_char_digit_char [OF lt(1)]
        of_char_digit_char [OF lt(2)] of_char_digit_char [OF lt(3)] of_char_digit_char [OF lt(4)])
  moreover have "int_of (four_digits y) = y"
    unfolding four_digits_def int_of_four [OF lt] using assms by (rule four_digits_value)
  ultimately show ?thesis by simp
qed

lemma strptime_complete:
  assumes "real_date y m d" and "v \<in> set (birthday_texts y m d)"
  shows "strptime v = Inr \<lparr>year = y, month = m, day = d,
                           hour = 0, minute = 0, second = 0, microsecond = 0\<rparr>"
proof -
  from assms(2) obtain dt mt where dt: "dt \<in> set (day_texts d)" and mt: "mt \<in> set (month_texts m)"
    and v: "v = dt @ CHR ''.'' # mt @ CHR ''.'' # four_digits y"
    by (auto simp: birthday_texts_def)
  have b: "1 \<le> y" "y \<le> 9999" "1 \<le> m" "m \<le> 12" "1 \<le> d" "d \<le> days_in_month y m"
    using assms(1) by (simp_all add: real_date_def)
  have d31: "d \<le> 31" using b(6) days_in_month_le_31 [OF b(3,4), of y] by simp
  note D = day_dot_complete [OF b(5) d31 dt, of "mt @ CHR ''.'' # four_digits y"]
  note M = month_dot_complete [OF b(3,4) mt, of "four_digits y"]
  note Y = year_complete [OF b(2)]
  have "re_seq (re_seq group_m (lit CHR ''.'')) group_Y (mt @ CHR ''.'' # four_digits y)
        = [(((mt, ''.''), four_digits y), [])]"
    using M Y by (simp add: re_seq_single)
  then have "format_regex v = [(((dt, ''.''), (mt, ''.''), four_digits y), [])]"
    unfolding format_regex_def v using D by (simp add: re_seq_single)
  then show ?thesis
    using D M Y assms(1) by (simp add: strptime_def datetime_init_def real_date_def)
qed

text \<open>
  Claim C4, as amended, for the values whose characters are all below U+0100 (the strings
  of this theory; the digits among them are \<^verbatim>\<open>0\<close>..\<^verbatim>\<open>9\<close>). For such a value
  \<^verbatim>\<open>Birthday(value)\<close> succeeds, storing the string as it is, exactly when the string is a
  written form of a real calendar date of the years 1..9999: the day, a dot, the month, a
  dot and the year with four digits, where a day below 10 is written with one digit, with
  a leading zero or with a leading blank, and a month below 10 with one digit or with a
  leading zero. Every other such value is refused with
  \<^verbatim>\<open>ValueError("Invalid date format. Use DD.MM.YYYY")\<close>. Beyond U+00FF the pattern's
  \<^verbatim>\<open>\d\<close> also takes the other decimal digits of Unicode; the theorem says nothing of
  such values.
\<close>

theorem Birthday_accepts_written_dates:
  "Birthday v =
     (if \<exists>y m d. real_date y m d \<and> v \<in> set (birthday_texts y m d)
      then Inr (Field_of v)
      else Inl (ValueError ''Invalid date format. Use DD.MM.YYYY''))"
proof (cases "\<exists>y m d. real_date y m d \<and> v \<in> set (birthday_texts y m d)")
  case True
  then obtain y m d where "real_date y m d" "v \<in> set (birthday_texts y m d)" by blast
  then have "\<exists>dt. strptime v = Inr dt" using strptime_complete by blast
  with True show ?thesis by (auto simp: Birthday_cases)
next
  case False
  then have "\<exists>e. strptime v = Inl e"
    using strptime_sound [of v] by (cases "strptime v") auto
  with False show ?thesis by (auto simp: Birthday_cases)
qed

text \<open>
  The examples of the claim: 29.02.2000 and 01.01.2000 are accepted, 29.02.2001 and
  31.04.2020 are refused.
\<close>

theorem Birthday_accepts_written_dates_witness:
  "Birthday ''29.02.2000'' = Inr (Field_of ''29.02.2000'') \<and>
   Birthday ''01.01.2000'' = Inr (Field_of ''01.01.2000'') \<and>
   Birthday ''29.02.2001'' = Inl (ValueError ''Invalid date format. Use DD.MM.YYYY'') \<and>
   Birthday ''31.04.2020'' = Inl (ValueError ''Invalid date format. Use DD.MM.YYYY'') \<and>
   (\<exists>y m d. real_date y m d \<and> ''29.02.2000'' \<in> set (birthday_texts y m d)) \<and>
   \<not> (\<exists>y m d. real_date y m d \<and> ''29.02.2001'' \<in> set (birthday_texts y m d))"
proof -
  have 1: "Birthday ''29.02.2000'' = Inr (Field_of ''29.02.2000'')"
    by (simp add: Birthday_def date_defs re_defs)
  have 2: "Birthday ''01.01.2000'' = Inr (Field_of ''01.01.2000'')"
    by (simp add: Birthday_def date_defs re_defs)
  have 3: "Birthday ''29.02.2001'' = Inl (ValueError ''Invalid date format. Use DD.MM.YYYY'')"
    by (simp add: Birthday_def date_defs re_defs)
  have 4: "Birthday ''31.04.2020'' = Inl (ValueError ''Invalid date format. Use DD.MM.YYYY'')"
    by (simp add: Birthday_def date_defs re_defs)
  have 5: "\<exists>y m d. real_date y m d \<and> ''29.02.2000'' \<in> set (birthday_texts y m d)"
    using Birthday_accepts_written_dates [of "''29.02.2000''"] 1 by (auto split: if_splits)
  have 6: "\<not> (\<exists>y m d. real_date y m d \<and> ''29.02.2001'' \<in> set (birthday_texts y m d))"
    using Birthday_accepts_written_dates [of "''29.02.2001''"] 3 by (auto split: if_splits)
  from 1 2 3 4 5 6 show ?thesis by blast
qed

text \<open>
  The claim as it was written fails: a date without the leading zeros is accepted.
\<close>

theorem Birthday_unpadded_counterexample:
  "Birthday ''1.1.2000'' = Inr (Field_of ''1.1.2000'')"
  by (simp add: Birthday_def date_defs re_defs)

subsection \<open>Upcoming birthdays\<close>

lemma upcoming_loop_append:
  "upcoming_loop t nw (xs @ ys) acc =
     (case upcoming_loop t nw xs acc of Inl e \<Rightarrow> Inl e | Inr a \<Rightarrow> upcoming_loop t nw ys a)"
  by (induction xs arbitrary: acc) (auto split: sum.splits)

lemma upcoming_loop_skip:
  "upcoming_entry t nw r = Inr [] \<Longrightarrow>
   upcoming_loop t nw (xs @ r # ys) acc = upcoming_loop t nw (xs @ ys) acc"
  by (simp add: upcoming_loop_append split: sum.splits)

lemma upcoming_loop_raises:
  "r \<in> set rs \<Longrightarrow> upcoming_entry t nw r = Inl e \<Longrightarrow> \<exists>e'. upcoming_loop t nw rs acc = Inl e'"
  by (induction rs arbitrary: acc) (auto split: sum.splits)

text \<open>
  Claim C1, evaluated where it fails. The book holds Ann, born on 1 June, and the call is
  made on 1 June 2024. At noon the result is empty: the birthday of today is left out,
  since \<^verbatim>\<open>bday_this_year\<close> is the midnight that began the day and \<^verbatim>\<open>today\<close> carries the
  clock. At midnight sharp the same book gives Ann. So the time of day decides, and a
  birthday that falls today is in the result only at 00:00:00.000000.
\<close>

theorem birthday_today_depends_on_clock:
  "get_upcoming_birthdays
     \<lparr>year = 2024, month = 6, day = 1, hour = 12, minute = 0, second = 0, microsecond = 0\<rparr>
     \<lparr>data = [(''Ann'', \<lparr>name = Field_of ''Ann'', phones = [],
                         birthday = Some (Field_of ''01.06.1990'')\<rparr>)]\<rparr>
   = Inr [] \<and>
   get_upcoming_birthdays
     \<lparr>year = 2024, month = 6, day = 1, hour = 0, minute = 0, second = 0, microsecond = 0\<rparr>
     \<lparr>data = [(''Ann'', \<lparr>name = Field_of ''Ann'', phones = [],
                         birthday = Some (Field_of ''01.06.1990'')\<rparr>)]\<rparr>
   = Inr [\<lparr>upcoming_name = ''Ann'', upcoming_birthday = ''01.06.2024''\<rparr>]"
  by (simp add: get_upcoming_birthdays_def upcoming_entry_def date_defs re_defs)


text \<open>
  Claim C6. No wrap into the next year: a record whose birthday, moved to the year of
  \<open>today\<close>, falls on a calendar day before \<open>today\<close> contributes nothing, whatever the
  end of the window is, and the call returns what it returns for the book without that
  record.
\<close>

theorem no_year_wraparound:
  assumes "birthday r = Some bd"
    and "strptime (field_value bd) = Inr bday_date"
    and "replace_year bday_date (year today) = Inr bday_this_year"
    and "date_of bday_this_year < date_of today"
  shows "upcoming_entry today next_week r = Inr [] \<and>
         get_upcoming_birthdays today (b\<lparr>data := xs @ (k, r) # ys\<rparr>) =
         get_upcoming_birthdays today (b\<lparr>data := xs @ ys\<rparr>)"
proof -
  have "\<not> datetime_le today bday_this_year"
    using assms(4) by (auto simp: datetime_le_def datetime_key_def date_of_def)
  then have e: "upcoming_entry today nw r = Inr []" for nw
    using assms(1-3) by (simp add: upcoming_entry_def)
  then show ?thesis
    by (simp add: get_upcoming_birthdays_def upcoming_loop_skip split: sum.splits)
qed

text \<open>
  The example of the claim: on 30 December 2024 a birthday of 29.12 is not reported.
\<close>

theorem no_year_wraparound_witness:
  "get_upcoming_birthdays
     \<lparr>year = 2024, month = 12, day = 30, hour = 10, minute = 30, second = 0, microsecond = 0\<rparr>
     \<lparr>data = [(''Eve'', \<lparr>name = Field_of ''Eve'', phones = [],
                         birthday = Some (Field_of ''29.12.1990'')\<rparr>)]\<rparr>
   = Inr []"
proof -
  let ?today = "\<lparr>year = 2024, month = 12, day = 30, hour = 10, minute = 30, second = 0,
                 microsecond = 0\<rparr>"
  let ?r = "\<lparr>name = Field_of ''Eve'', phones = [], birthday = Some (Field_of ''29.12.1990'')\<rparr>"
  let ?d = "\<lparr>year = 1990, month = 12, day = 29, hour = 0, minute = 0, second = 0,
             microsecond = 0\<rparr>"
  let ?occ = "\<lparr>year = 2024, month = 12, day = 29, hour = 0, minute = 0, second = 0,
               microsecond = 0\<rparr>"
  have 1: "birthday ?r = Some (Field_of ''29.12.1990'')" by simp
  have 2: "strptime (field_value (Field_of ''29.12.1990'')) = Inr ?d"
    by (simp add: date_defs re_defs)
  have 3: "replace_year ?d (year ?today) = Inr ?occ"
    by (simp add: date_defs)
  have 4: "date_of ?occ < date_of ?today" by (simp add: date_of_def)
  have 5: "get_upcoming_birthdays ?today \<lparr>data = []\<rparr> = Inr []"
    by (simp add: get_upcoming_birthdays_def date_defs)
  from no_year_wraparound [OF 1 2 3 4, where b = "\<lparr>data = []\<rparr>" and xs = "[]"
      and k = "''Eve''" and ys = "[]"] 5
  show ?thesis by simp
qed

text \<open>
  Claim C9. \<^verbatim>\<open>get_upcoming_birthdays\<close> is not total on valid books: when the year of
  \<open>today\<close> is not a leap year, every book with a record whose birthday parses to a
  29 February makes the call raise, since \<^verbatim>\<open>replace(year=...)\<close> has no such day to build.
\<close>

theorem leap_day_birthday_raises:
  assumes "\<not> is_leap (year today)"
    and "(k, r) \<in> set (data b)"
    and "birthday r = Some bd"
    and "strptime (field_value bd) = Inr bday_date"
    and "month bday_date = 2" and "day bday_date = 29"
  shows "\<exists>e. get_upcoming_birthdays today b = Inl e"
proof (cases "add_days today 7")
  case (Inl e)
  then show ?thesis by (simp add: get_upcoming_birthdays_def)
next
  case (Inr next_week)
  have "days_in_month (year today) 2 = 28"
    using assms(1) by (simp add: days_in_month_def)
  then have "\<exists>e. replace_year bday_date (year today) = Inl e"
    using assms(5,6) by (simp add: replace_year_def datetime_init_def)
  then have "\<exists>e. upcoming_entry today next_week r = Inl e"
    using assms(3,4) by (auto simp: upcoming_entry_def)
  moreover have "r \<in> set (map snd (data b))"
    using assms(2) by force
  ultimately show ?thesis
    using Inr upcoming_loop_raises by (fastforce simp: get_upcoming_birthdays_def)
qed

text \<open>The example of the claim: the birthday 29.02.2000, asked for in 2023.\<close>

theorem leap_day_birthday_raises_witness:
  "\<exists>e. get_upcoming_birthdays
     \<lparr>year = 2023, month = 6, day = 1, hour = 9, minute = 0, second = 0, microsecond = 0\<rparr>
     \<lparr>data = [(''Ann'', \<lparr>name = Field_of ''Ann'', phones = [],
                         birthday = Some (Field_of ''29.02.2000'')\<rparr>)]\<rparr>
   = Inl e"
proof -
  let ?today = "\<lparr>year = 2023, month = 6, day = 1, hour = 9, minute = 0, second = 0,
                 microsecond = 0\<rparr>"
  let ?r = "\<lparr>name = Field_of ''Ann'', phones = [], birthday = Some (Field_of ''29.02.2000'')\<rparr>"
  let ?d = "\<lparr>year = 2000, month = 2, day = 29, hour = 0, minute = 0, second = 0,
             microsecond = 0\<rparr>"
  have 1: "\<not> is_leap (year ?today)" by (simp add: is_leap_def)
  have 2: "(''Ann'', ?r) \<in> set (data \<lparr>data = [(''Ann'', ?r)]\<rparr>)" by simp
  have 3: "birthday ?r = Some (Field_of ''29.02.2000'')" by simp
  have 4: "strptime (field_value (Field_of ''29.02.2000'')) = Inr ?d"
    by (simp add: date_defs re_defs)
  have 5: "month ?d = 2" by simp
  have 6: "day ?d = 29" by simp
  show ?thesis by (rule leap_day_birthday_raises [OF 1 2 3 4 5 6])
qed

end
